theory Spec2Isabelle
  imports Main "HOL-Library.AList"
begin

section \<open>Identifiers, nodes and durations\<close>

text \<open>
  An \<open>ID\<close> is a sequence of digits. \<open>Node\<close> is the Go struct \<open>Node{Id, Address}\<close>; it is a
  value type and is used as a map key, so equality is structural.
  A \<open>time.Duration\<close> counts nanoseconds; instants of the clock are integers in the same unit.
\<close>

type_synonym ID = "nat list"

record Node =
  Id :: ID
  Address :: string

type_synonym duration = int

definition second :: duration where
  "second = 1000000000"

definition REPUBLISH :: duration where
  "REPUBLISH = 10 * second"

definition TIMEOUT :: duration where
  "TIMEOUT = 25 * second"

section \<open>Timers of the Go runtime\<close>

text \<open>
  \<open>time.AfterFunc(d, f)\<close> allocates a timer object that will run \<open>f\<close> once the clock
  reaches the instant of the call plus \<open>d\<close>. The directory stores pointers to such objects,
  and an overwritten pointer leaves the object behind, so the objects live in an explicit
  heap: a list of timers, a pointer being an index into it. A timer records its deadline,
  whether it is still scheduled (neither fired nor stopped), and the \<open>key\<close> and
  \<open>replica\<close> captured by the closure \<open>expire\<close> it was created with.
\<close>

record Timer =
  deadline :: int
  live :: bool
  tkey :: string
  treplica :: Node

type_synonym timer_ptr = nat

section \<open>The object store\<close>

text \<open>
  \<open>data\<close> is the field \<open>map[string]map[Node]*time.Timer\<close>. A Go map is kept as an
  association list; \<open>map_of\<close> reads it, \<open>AList.update\<close> assigns and \<open>AList.delete\<close>
  deletes. The order in which Go ranges over a map is unspecified and changes from
  one iteration to the next; the list order stands for one such order. The theorems on
  the listings that \<open>slice\<close> returns are about their members and their duplicates; where
  two listings are equated as lists, the equation is one of this fixed order. The mutex makes every operation
  atomic, so each operation is one function on the state. \<open>timers\<close> and \<open>now\<close> are the
  runtime's timer heap and clock.
\<close>

type_synonym registrations = "(Node \<times> timer_ptr) list"

record state =
  data :: "(string \<times> registrations) list"
  timers :: "Timer list"
  now :: int

definition NewObjectStore :: "int \<Rightarrow> state" where
  "NewObjectStore clock = \<lparr>data = [], timers = [], now = clock\<rparr>"

text \<open>\<open>store.data[key]\<close>: a missing key reads as the nil map, which behaves as an empty one.\<close>

definition data_at :: "state \<Rightarrow> string \<Rightarrow> registrations" where
  "data_at s key = (case map_of (data s) key of None \<Rightarrow> [] | Some valmap \<Rightarrow> valmap)"

text \<open>\<open>timer.Reset(d)\<close> re-arms the timer to run \<open>d\<close> from now; \<open>timer.Stop()\<close> unschedules it.\<close>

definition timer_Reset :: "timer_ptr \<Rightarrow> duration \<Rightarrow> state \<Rightarrow> state" where
  "timer_Reset p d s =
     (if p < length (timers s)
      then s\<lparr>timers := (timers s)[p := (timers s ! p)\<lparr>deadline := now s + d, live := True\<rparr>]\<rparr>
      else s)"

definition timer_Stop :: "timer_ptr \<Rightarrow> state \<Rightarrow> state" where
  "timer_Stop p s =
     (if p < length (timers s)
      then s\<lparr>timers := (timers s)[p := (timers s ! p)\<lparr>live := False\<rparr>]\<rparr>
      else s)"

text \<open>\<open>newTimeout\<close>: \<open>time.AfterFunc(timeout, expire)\<close> with the closure over \<open>key\<close> and \<open>replica\<close>.\<close>

definition newTimeout :: "string \<Rightarrow> Node \<Rightarrow> duration \<Rightarrow> state \<Rightarrow> timer_ptr \<times> state" where
  "newTimeout key replica timeout s =
     (length (timers s),
      s\<lparr>timers := timers s @
           [\<lparr>deadline = now s + timeout, live = True, tkey = key, treplica = replica\<rparr>]\<rparr>)"

text \<open>The utility \<open>slice\<close>: the keys of a registration map, appended one by one.\<close>

definition slice :: "registrations \<Rightarrow> Node list" where
  "slice valmap = fold (\<lambda>(value, _) values. values @ [value]) valmap []"

definition Register :: "string \<Rightarrow> Node \<Rightarrow> duration \<Rightarrow> state \<Rightarrow> bool \<times> state" where
  "Register key replica timeout s =
     (let s1 = (if map_of (data s) key = None
                then s\<lparr>data := AList.update key [] (data s)\<rparr> else s)
      in case map_of (data_at s1 key) replica of
           None \<Rightarrow>
             (let (t, s2) = newTimeout key replica timeout s1
              in (True, s2\<lparr>data := AList.update key
                                     (AList.update replica t (data_at s2 key)) (data s2)\<rparr>))
         | Some timer \<Rightarrow> (False, timer_Reset timer TIMEOUT s1))"

text \<open>\<open>RegisterAll\<close>: the inner loop over the replicas of one key, then the loop over the batch.\<close>

definition RegisterAll_replica :: "string \<Rightarrow> duration \<Rightarrow> Node \<Rightarrow> state \<Rightarrow> state" where
  "RegisterAll_replica key timeout replica s =
     (let (t, s2) = newTimeout key replica timeout s
      in s2\<lparr>data := AList.update key (AList.update replica t (data_at s2 key)) (data s2)\<rparr>)"

definition RegisterAll_key :: "duration \<Rightarrow> string \<times> Node list \<Rightarrow> state \<Rightarrow> state" where
  "RegisterAll_key timeout kr s =
     (let s1 = (if map_of (data s) (fst kr) = None
                then s\<lparr>data := AList.update (fst kr) [] (data s)\<rparr> else s)
      in fold (RegisterAll_replica (fst kr) timeout) (snd kr) s1)"

definition RegisterAll :: "(string \<times> Node list) list \<Rightarrow> duration \<Rightarrow> state \<Rightarrow> state" where
  "RegisterAll replicamap timeout s = fold (RegisterAll_key timeout) replicamap s"

text \<open>
  \<open>delete(store.data[key], replica)\<close>: deleting from the nil map of a missing key does
  nothing; otherwise the inner map loses \<open>replica\<close> and stays in place under \<open>key\<close>.
\<close>

definition delete_registration :: "string \<Rightarrow> Node \<Rightarrow> state \<Rightarrow> state" where
  "delete_registration key replica s =
     (case map_of (data s) key of
        None \<Rightarrow> s
      | Some valmap \<Rightarrow> s\<lparr>data := AList.update key (AList.delete replica valmap) (data s)\<rparr>)"

definition Unregister :: "string \<Rightarrow> Node \<Rightarrow> state \<Rightarrow> bool \<times> state" where
  "Unregister key replica s =
     (let existed = (map_of (data_at s key) replica \<noteq> None)
      in (existed, delete_registration key replica s))"

definition UnregisterAll :: "string \<Rightarrow> state \<Rightarrow> Node list \<times> state" where
  "UnregisterAll key s = (slice (data_at s key), s\<lparr>data := AList.delete key (data s)\<rparr>)"

definition Get :: "string \<Rightarrow> state \<Rightarrow> Node list" where
  "Get key s = slice (data_at s key)"

text \<open>
  \<open>GetTransferRegistrations\<close>. \<open>Hash\<close> and \<open>ID.BetterChoice\<close> belong to the identifier
  component and are parameters: \<open>BetterChoice h a b\<close> stands for \<open>h.BetterChoice(a, b)\<close>.
  The first loop collects, the second deletes the collected keys.
\<close>

definition GetTransferRegistrations ::
  "(string \<Rightarrow> ID) \<Rightarrow> (ID \<Rightarrow> ID \<Rightarrow> ID \<Rightarrow> bool) \<Rightarrow> Node \<Rightarrow> Node \<Rightarrow> state
     \<Rightarrow> (string \<times> Node list) list \<times> state" where
  "GetTransferRegistrations Hash BetterChoice local remote s =
     (let transfer = fold (\<lambda>(key, values) tr.
                             if BetterChoice (Hash key) (Id remote) (Id local)
                             then AList.update key (slice values) tr else tr) (data s) [];
          data' = fold (\<lambda>(key, _) d. AList.delete key d) transfer (data s)
      in (transfer, s\<lparr>data := data'\<rparr>))"

text \<open>
  The closure \<open>expire\<close> built by \<open>newTimeout\<close>, run when a timer fires: it looks the pair up
  again and, if present, stops whatever timer the directory holds for it and deletes the pair.
\<close>

definition expire :: "string \<Rightarrow> Node \<Rightarrow> state \<Rightarrow> state" where
  "expire key replica s =
     (case map_of (data_at s key) replica of
        None \<Rightarrow> s
      | Some timer \<Rightarrow> delete_registration key replica (timer_Stop timer s))"

text \<open>
  The runtime. Time passes. A scheduled timer whose deadline has been reached runs out:
  it leaves the schedule, and its closure is started in a goroutine of its own, which
  still has to take the mutex. \<open>timer_runs_out\<close> is that first step (\<open>None\<close> when the
  timer cannot run out) and \<open>callback\<close> the second, the closure of timer \<open>p\<close> running
  under the mutex. Any operation of the store can take place between the two.
  \<open>fire\<close> is the two steps with nothing in between.
\<close>

definition elapse :: "duration \<Rightarrow> state \<Rightarrow> state" where
  "elapse d s = s\<lparr>now := now s + d\<rparr>"

definition timer_runs_out :: "timer_ptr \<Rightarrow> state \<Rightarrow> state option" where
  "timer_runs_out p s =
     (if p < length (timers s) \<and> live (timers s ! p) \<and> deadline (timers s ! p) \<le> now s
      then Some (s\<lparr>timers := (timers s)[p := (timers s ! p)\<lparr>live := False\<rparr>]\<rparr>)
      else None)"

definition callback :: "timer_ptr \<Rightarrow> state \<Rightarrow> state" where
  "callback p s =
     (if p < length (timers s)
      then expire (tkey (timers s ! p)) (treplica (timers s ! p)) s
      else s)"

definition fire :: "timer_ptr \<Rightarrow> state \<Rightarrow> state option" where
  "fire p s = map_option (callback p) (timer_runs_out p s)"

text \<open>Observations used to state properties.\<close>

definition keys_of :: "state \<Rightarrow> string set" where
  "keys_of s = fst ` set (data s)"

definition is_registered :: "state \<Rightarrow> string \<Rightarrow> Node \<Rightarrow> bool" where
  "is_registered s key replica \<longleftrightarrow> map_of (data_at s key) replica \<noteq> None"

definition timer_of :: "state \<Rightarrow> string \<Rightarrow> Node \<Rightarrow> timer_ptr option" where
  "timer_of s key replica = map_of (data_at s key) replica"

text \<open>The scheduled timers whose closure is for the pair \<open>(key, replica)\<close>.\<close>

definition live_timers :: "state \<Rightarrow> string \<Rightarrow> Node \<Rightarrow> timer_ptr list" where
  "live_timers s key replica =
     filter (\<lambda>p. live (timers s ! p) \<and> tkey (timers s ! p) = key \<and> treplica (timers s ! p) = replica)
       [0 ..< length (timers s)]"

text \<open>
  The representation invariant of the two levels of maps: keys are unique, as in any Go map.
\<close>

definition unique_keys :: "state \<Rightarrow> bool" where
  "unique_keys s \<longleftrightarrow>
     distinct (map fst (data s)) \<and> (\<forall>valmap \<in> snd ` set (data s). distinct (map fst valmap))"

text \<open>The invariant of the specification: no key of the directory has an empty set.\<close>

definition nonempty_sets :: "state \<Rightarrow> bool" where
  "nonempty_sets s \<longleftrightarrow> (\<forall>valmap \<in> snd ` set (data s). valmap \<noteq> [])"

section \<open>The client data path\<close>

text \<open>
  A blob is a \<open>[]byte\<close>. \<open>'done\<close> is the readiness signal returned by \<open>Publish\<close> (a
  channel in the source) and \<open>'err\<close> the errors of the routing and transport layers;
  a Go \<open>error\<close> result is \<open>None\<close> for \<open>nil\<close>.
\<close>

type_synonym bytes = string

text \<open>
  Modelled from the spec: the type \<open>BlobStore\<close> of the local blob store, which the source
  files do not contain. A store maps a key to the bytes held for it and the readiness
  signal they were stored with.
\<close>

type_synonym 'done BlobStore = "string \<rightharpoonup> (bytes \<times> 'done)"

text \<open>
  Modelled from the spec: \<open>BlobStore.Put\<close>, absent from the source files; the specification
  gives \<open>Put(key, bytes, readySignal)\<close>, which stores the bytes and the signal under the key.
\<close>

definition Put :: "string \<Rightarrow> bytes \<Rightarrow> 'done \<Rightarrow> 'done BlobStore \<Rightarrow> 'done BlobStore" where
  "Put key val done bs = bs(key \<mapsto> (val, done))"

text \<open>
  Modelled from the spec: \<open>BlobStore.Delete\<close>, absent from the source files; the
  specification gives \<open>Delete(key) \<rightarrow> existed(bool)\<close>, which removes the key and tells
  whether it was there.
\<close>

definition Delete :: "string \<Rightarrow> 'done BlobStore \<Rightarrow> bool \<times> 'done BlobStore" where
  "Delete key bs = (bs key \<noteq> None, bs(key := None))"

text \<open>
  The struct \<open>Tapestry\<close>. \<open>local\<close> stands for the local node and all that is reached
  through it: the routing layer, the local directory and the remote nodes with their
  directories. Its type is a parameter, and the three operations on it that the data path
  calls are parameters too, each returning the Go result pair and the new outside state:
  \<open>Publish\<close>, \<open>Lookup\<close> and \<open>FetchRemoteBlob\<close>. The RPC server field plays no part here.
\<close>

record ('net, 'done) Tapestry =
  local :: 'net
  blobstore :: "'done BlobStore"

type_synonym ('net, 'done, 'err) publisher = "string \<Rightarrow> 'net \<Rightarrow> ('done \<times> 'err option) \<times> 'net"
type_synonym ('net, 'err) looker = "string \<Rightarrow> 'net \<Rightarrow> (Node list \<times> 'err option) \<times> 'net"
type_synonym ('net, 'err) fetcher = "Node \<Rightarrow> string \<Rightarrow> 'net \<Rightarrow> (bytes option \<times> 'err option) \<times> 'net"

definition Tapestry_Store ::
  "('net, 'done, 'err) publisher \<Rightarrow> string \<Rightarrow> bytes \<Rightarrow> ('net, 'done) Tapestry
     \<Rightarrow> 'err option \<times> ('net, 'done) Tapestry" where
  "Tapestry_Store Publish key val t =
     (case Publish key (local t) of
        ((done, Some err), net) \<Rightarrow> (Some err, t\<lparr>local := net\<rparr>)
      | ((done, None), net) \<Rightarrow>
          (None, t\<lparr>local := net, blobstore := Put key val done (blobstore t)\<rparr>))"

definition Tapestry_Lookup ::
  "('net, 'err) looker \<Rightarrow> string \<Rightarrow> ('net, 'done) Tapestry
     \<Rightarrow> (Node list \<times> 'err option) \<times> ('net, 'done) Tapestry" where
  "Tapestry_Lookup Lookup key t =
     (case Lookup key (local t) of (res, net) \<Rightarrow> (res, t\<lparr>local := net\<rparr>))"

text \<open>
  The errors \<open>Tapestry.Get\<close> returns: the error of \<open>Lookup\<close> as it is, or one of the two
  errors it formats itself, the second from the replica list and the collected errors.
\<close>

datatype 'err get_error =
    Lookup_error 'err
  | No_replicas string
  | Error_contacting "Node list" "'err list"

text \<open>The loop over the replicas, with the errors collected so far.\<close>

fun contact_replicas ::
  "('net, 'err) fetcher \<Rightarrow> string \<Rightarrow> Node list \<Rightarrow> 'err list \<Rightarrow> 'net
     \<Rightarrow> (bytes option \<times> 'err list) \<times> 'net" where
  "contact_replicas Fetch key [] errs net = ((None, errs), net)"
| "contact_replicas Fetch key (replica # replicas) errs net =
     (case Fetch replica key net of
        ((blob, err), net') \<Rightarrow>
          (let errs' = (case err of Some e \<Rightarrow> errs @ [e] | None \<Rightarrow> errs)
           in case blob of
                Some b \<Rightarrow> ((Some b, errs'), net')
              | None \<Rightarrow> contact_replicas Fetch key replicas errs' net'))"

definition Tapestry_Get ::
  "('net, 'err) looker \<Rightarrow> ('net, 'err) fetcher \<Rightarrow> string \<Rightarrow> ('net, 'done) Tapestry
     \<Rightarrow> ('err get_error + bytes) \<times> ('net, 'done) Tapestry" where
  "Tapestry_Get Lookup Fetch key t =
     (case Tapestry_Lookup Lookup key t of
        ((replicas, Some err), t1) \<Rightarrow> (Inl (Lookup_error err), t1)
      | ((replicas, None), t1) \<Rightarrow>
          if length replicas = 0 then (Inl (No_replicas key), t1)
          else (case contact_replicas Fetch key replicas [] (local t1) of
                  ((Some b, errs), net) \<Rightarrow> (Inr b, t1\<lparr>local := net\<rparr>)
                | ((None, errs), net) \<Rightarrow>
                    (Inl (Error_contacting replicas errs), t1\<lparr>local := net\<rparr>)))"

definition Tapestry_Remove ::
  "string \<Rightarrow> ('net, 'done) Tapestry \<Rightarrow> bool \<times> ('net, 'done) Tapestry" where
  "Tapestry_Remove key t =
     (case Delete key (blobstore t) of (existed, bs) \<Rightarrow> (existed, t\<lparr>blobstore := bs\<rparr>))"

text \<open>
  What each replica of a list answers when all of them are asked in order, whatever the
  answers: the yardstick against which the loop of \<open>Tapestry.Get\<close> is described.
\<close>

fun fetch_each ::
  "('net, 'err) fetcher \<Rightarrow> string \<Rightarrow> Node list \<Rightarrow> 'net
     \<Rightarrow> (bytes option \<times> 'err option) list \<times> 'net" where
  "fetch_each Fetch key [] net = ([], net)"
| "fetch_each Fetch key (replica # replicas) net =
     (case Fetch replica key net of
        (answer, net') \<Rightarrow>
          (case fetch_each Fetch key replicas net' of
             (answers, net'') \<Rightarrow> (answer # answers, net'')))"

definition errors_of :: "(bytes option \<times> 'err option) list \<Rightarrow> 'err list" where
  "errors_of answers = List.map_filter snd answers"

section \<open>Concrete inputs\<close>

text \<open>
  Two nodes, and collaborators over an outside state that counts the remote calls made,
  with errors as strings and readiness signals as numbers.
\<close>

definition node_a :: Node where
  "node_a = \<lparr>Id = [1, 0], Address = ''a:7000''\<rparr>"

definition node_b :: Node where
  "node_b = \<lparr>Id = [2, 0], Address = ''b:7000''\<rparr>"

definition tapestry0 :: "(nat, nat) Tapestry" where
  "tapestry0 = \<lparr>local = 0, blobstore = Map.empty\<rparr>"

definition lookup_fails :: "(nat, string) looker" where
  "lookup_fails key net = (([], Some ''no route''), Suc net)"

definition lookup_none :: "(nat, string) looker" where
  "lookup_none key net = (([], None), Suc net)"

definition lookup_a :: "(nat, string) looker" where
  "lookup_a key net = (([node_a], None), Suc net)"

definition lookup_ab :: "(nat, string) looker" where
  "lookup_ab key net = (([node_a, node_b], None), Suc net)"

text \<open>\<open>node_a\<close> refuses; every other node answers with the blob.\<close>

definition fetch_b_has_it :: "(nat, string) fetcher" where
  "fetch_b_has_it replica key net =
     (if replica = node_a then (None, Some ''refused'') else (Some ''blob'', None), Suc net)"

text \<open>Every node refuses, except that \<open>node_b\<close> is silent: no blob and no error.\<close>

definition fetch_nobody_has_it :: "(nat, string) fetcher" where
  "fetch_nobody_has_it replica key net =
     (if replica = node_b then (None, None) else (None, Some ''refused''), Suc net)"

text \<open>Every node answers with a blob and an error at once.\<close>

definition fetch_blob_and_error :: "(nat, string) fetcher" where
  "fetch_blob_and_error replica key net = ((Some ''blob'', Some ''short read''), Suc net)"

text \<open>\<open>node_a\<close> refuses; every other node answers with a blob and an error at once.\<close>

definition fetch_error_everywhere :: "(nat, string) fetcher" where
  "fetch_error_everywhere replica key net =
     (if replica = node_a then (None, Some ''refused'')
      else (Some ''blob'', Some ''short read''), Suc net)"

definition publish_ok :: "(nat, nat, string) publisher" where
  "publish_ok key net = ((7, None), Suc net)"

definition publish_fails :: "(nat, nat, string) publisher" where
  "publish_fails key net = ((0, Some ''no root''), Suc net)"

text \<open>
  One possible identifier component: a key hashes to its characters taken modulo the base,
  and the better of two identifiers is the one sharing the longer prefix with the hash.
\<close>

definition hash_digits :: "string \<Rightarrow> ID" where
  "hash_digits key = map (\<lambda>c. of_char c mod 16) key"

fun shared_prefix :: "ID \<Rightarrow> ID \<Rightarrow> nat" where
  "shared_prefix (x # xs) (y # ys) = (if x = y then Suc (shared_prefix xs ys) else 0)"
| "shared_prefix _ _ = 0"

definition longer_prefix :: "ID \<Rightarrow> ID \<Rightarrow> ID \<Rightarrow> bool" where
  "longer_prefix h a b \<longleftrightarrow> shared_prefix h b < shared_prefix h a"

text \<open>A directory in which \<open>node_b\<close> advertises key \<open>a\<close> and \<open>node_a\<close> advertises key \<open>b\<close>.\<close>

definition store_ab :: state where
  "store_ab =
     snd (Register ''b'' node_a (5 * second) (snd (Register ''a'' node_b (5 * second) (NewObjectStore 0))))"

text \<open>The same directory after \<open>node_b\<close> has advertised key \<open>b\<close> as well.\<close>

definition store_abb :: state where
  "store_abb = snd (Register ''b'' node_b (5 * second) store_ab)"

text \<open>A directory at instant 0 in which \<open>node_a\<close> has registered key \<open>k\<close> for five seconds.\<close>

definition store_k :: state where
  "store_k = snd (Register ''k'' node_a (5 * second) (NewObjectStore 0))"

section \<open>Association lists as Go maps\<close>

lemma slice_acc: "fold (\<lambda>(value, _) values. values @ [value]) valmap acc = acc @ map fst valmap"
  by (induction valmap arbitrary: acc) (auto split: prod.splits)

lemma slice_eq: "slice valmap = map fst valmap"
  by (simp add: slice_def slice_acc)

lemma set_slice: "set (slice valmap) = dom (map_of valmap)"
  by (simp add: slice_eq dom_map_of_conv_image_fst)

lemma set_update_subset: "set (AList.update k v al) \<subseteq> insert (k, v) (set al)"
  by (induction al) auto



lemma delete_as_filter: "AList.delete key d = filter (\<lambda>kv. fst kv \<noteq> key) d"
  by (induction d) auto

lemma map_of_filter_keys:
  "map_of (filter (\<lambda>kv. fst kv \<notin> A) d) k = (if k \<in> A then None else map_of d k)"
  by (induction d) auto

lemma upt_2: "[0 ..< Suc (Suc 0)] = [0, Suc 0]"
  by (simp add: upt_rec)

lemma upt_3: "[0 ..< Suc (Suc (Suc 0))] = [0, Suc 0, Suc (Suc 0)]"
  by (simp add: upt_rec)

section \<open>Reading the directory\<close>

lemma data_at_update:
  "data_at (s\<lparr>data := AList.update key v (data s)\<rparr>) k = (if k = key then v else data_at s k)"
  by (simp add: data_at_def update_conv')

lemma data_at_timers [simp]: "data_at (s\<lparr>timers := ts\<rparr>) k = data_at s k"
  by (simp add: data_at_def)

lemma data_at_in_data: "data_at s key \<noteq> [] \<Longrightarrow> (key, data_at s key) \<in> set (data s)"
  by (auto simp: data_at_def split: option.splits dest: map_of_SomeD)

lemma data_at_present: "map_of (data s) key = Some valmap \<Longrightarrow> data_at s key = valmap"
  by (simp add: data_at_def)

lemma data_at_delete_same: "data_at (s\<lparr>data := AList.delete key (data s)\<rparr>) key = []"
  by (simp add: data_at_def delete_conv')

lemma data_at_delete_other:
  "key' \<noteq> key \<Longrightarrow> data_at (s\<lparr>data := AList.delete key (data s)\<rparr>) key' = data_at s key'"
  by (simp add: data_at_def)

lemma data_timer_Reset [simp]: "data (timer_Reset p d s) = data s"
  by (simp add: timer_Reset_def)

lemma data_timer_Stop [simp]: "data (timer_Stop p s) = data s"
  by (simp add: timer_Stop_def)

lemma data_at_timer_Reset [simp]: "data_at (timer_Reset p d s) k = data_at s k"
  by (simp add: data_at_def)

lemma data_at_timer_Stop [simp]: "data_at (timer_Stop p s) k = data_at s k"
  by (simp add: data_at_def)

lemma data_elapse [simp]: "data (elapse d s) = data s"
  by (simp add: elapse_def)

lemma timers_elapse [simp]: "timers (elapse d s) = timers s"
  by (simp add: elapse_def)

lemma data_at_elapse [simp]: "data_at (elapse d s) k = data_at s k"
  by (simp add: data_at_def)

lemma is_registered_elapse [simp]: "is_registered (elapse d s) key replica = is_registered s key replica"
  by (simp add: is_registered_def)

lemma is_registered_Get: "is_registered s key replica \<longleftrightarrow> replica \<in> set (Get key s)"
  by (auto simp: is_registered_def Get_def set_slice)

lemma Get_cong_data: "data s' = data s \<Longrightarrow> Get key s' = Get key s"
  by (simp add: Get_def data_at_def)

lemma keys_of_timers [simp]: "keys_of (s\<lparr>timers := ts\<rparr>) = keys_of s"
  by (simp add: keys_of_def)

lemma keys_of_timer_Stop [simp]: "keys_of (timer_Stop p s) = keys_of s"
  by (simp add: keys_of_def)

lemma timer_of_timers [simp]: "timer_of (s\<lparr>timers := ts\<rparr>) k r = timer_of s k r"
  by (simp add: timer_of_def)

lemma timer_of_in_data:
  assumes "timer_of s key replica = Some p"
  shows "(key, data_at s key) \<in> set (data s) \<and> (replica, p) \<in> set (data_at s key)"
proof -
  from assms have m: "(replica, p) \<in> set (data_at s key)"
    by (auto simp: timer_of_def dest: map_of_SomeD)
  then have "data_at s key \<noteq> []"
    by auto
  then show ?thesis
    using m data_at_in_data by blast
qed

section \<open>What the operations compute\<close>

lemma Register_fresh:
  assumes "map_of (data_at s key) replica = None"
  shows "Register key replica timeout s =
     (True, s\<lparr>timers := timers s @
                 [\<lparr>deadline = now s + timeout, live = True, tkey = key, treplica = replica\<rparr>],
               data := AList.update key
                         (AList.update replica (length (timers s)) (data_at s key)) (data s)\<rparr>)"
proof (cases "map_of (data s) key")
  case None
  then show ?thesis
    by (simp add: Register_def newTimeout_def data_at_def update_conv')
next
  case (Some valmap)
  then show ?thesis
    using assms by (simp add: Register_def newTimeout_def data_at_def)
qed

lemma Register_refresh:
  assumes "map_of (data_at s key) replica = Some p"
  shows "Register key replica timeout s = (False, timer_Reset p TIMEOUT s)"
proof -
  from assms obtain valmap where "map_of (data s) key = Some valmap"
    by (cases "map_of (data s) key") (auto simp: data_at_def)
  then show ?thesis
    using assms by (simp add: Register_def)
qed

lemma Register_again:
  assumes "is_registered s key replica"
  shows "fst (Register key replica timeout s) = False \<and>
         data (snd (Register key replica timeout s)) = data s"
proof -
  from assms obtain p where "map_of (data_at s key) replica = Some p"
    by (auto simp: is_registered_def)
  then show ?thesis
    by (simp add: Register_refresh)
qed

lemma Register_first:
  assumes "\<not> is_registered s key replica"
  shows "fst (Register key replica timeout s) = True \<and>
         data_at (snd (Register key replica timeout s)) key =
           AList.update replica (length (timers s)) (data_at s key)"
proof -
  from assms have n: "map_of (data_at s key) replica = None"
    by (simp add: is_registered_def)
  show ?thesis
    by (simp add: Register_fresh[OF n] data_at_def update_conv')
qed

lemma is_registered_Register: "is_registered (snd (Register key replica timeout s)) key replica"
proof (cases "is_registered s key replica")
  case True
  then show ?thesis
    using Register_again[OF True, of timeout] by (simp add: is_registered_def data_at_def)
next
  case False
  then show ?thesis
    using Register_first[OF False, of timeout] by (simp add: is_registered_def update_conv')
qed

lemma timers_Register_refresh:
  assumes "is_registered s key replica"
  shows "length (timers (snd (Register key replica timeout s))) = length (timers s)"
proof -
  from assms obtain p where "map_of (data_at s key) replica = Some p"
    by (auto simp: is_registered_def)
  then show ?thesis
    by (simp add: Register_refresh timer_Reset_def)
qed

text \<open>One step of the inner loop of RegisterAll fills the entry of its key.\<close>

lemma RegisterAll_replica_data:
  "RegisterAll_replica key timeout replica s =
     s\<lparr>timers := timers s @
                 [\<lparr>deadline = now s + timeout, live = True, tkey = key, treplica = replica\<rparr>],
       data := AList.update key
                 (AList.update replica (length (timers s)) (data_at s key)) (data s)\<rparr>"
  by (simp add: RegisterAll_replica_def newTimeout_def data_at_def)

lemma data_at_delete_registration:
  "data_at (delete_registration key replica s) k =
     (if k = key then AList.delete replica (data_at s key) else data_at s k)"
  by (cases "map_of (data s) key") (simp_all add: delete_registration_def data_at_def update_conv')

lemma timers_delete_registration [simp]: "timers (delete_registration key replica s) = timers s"
  by (simp add: delete_registration_def split: option.splits)

lemma timer_of_delete_registration:
  "timer_of (delete_registration key replica s) k r =
     (if k = key \<and> r = replica then None else timer_of s k r)"
  by (auto simp: timer_of_def data_at_delete_registration delete_conv')

lemma keys_of_delete_registration: "keys_of (delete_registration key replica s) = keys_of s"
proof (cases "map_of (data s) key")
  case None
  then show ?thesis by (simp add: delete_registration_def)
next
  case (Some valmap)
  then have "key \<in> fst ` set (data s)"
    by (auto dest!: map_of_SomeD intro: rev_image_eqI)
  then show ?thesis
    by (auto simp: delete_registration_def Some keys_of_def dom_update)
qed

lemma keys_of_expire: "keys_of (expire key replica s) = keys_of s"
  by (simp add: expire_def keys_of_delete_registration split: option.splits)

lemma keys_of_fire: "fire p s = Some s' \<Longrightarrow> keys_of s' = keys_of s"
  by (auto simp: fire_def timer_runs_out_def callback_def keys_of_expire split: if_splits)

lemma transfer_fold:
  "distinct (map fst xs) \<Longrightarrow>
   map_of (fold (\<lambda>(key, vals) tr. if P key then AList.update key (f vals) tr else tr) xs acc) k =
     (if P k \<and> k \<in> fst ` set xs then map_option f (map_of xs k) else map_of acc k)"
proof (induction xs arbitrary: acc)
  case Nil
  then show ?case by simp
next
  case (Cons x xs)
  obtain key vals where x: "x = (key, vals)" by (cases x)
  from Cons.prems have d: "distinct (map fst xs)" and nk: "key \<notin> fst ` set xs"
    by (auto simp: x)
  show ?case
    using nk by (auto simp: x Cons.IH[OF d] update_conv' map_of_eq_None_iff)
qed

lemma transfer_fold_keys:
  "fst ` set (fold (\<lambda>(key, vals) tr. if P key then AList.update key (f vals) tr else tr) xs acc) =
     fst ` set acc \<union> {k \<in> fst ` set xs. P k}"
  by (induction xs arbitrary: acc) (auto simp: dom_update split: prod.splits)

lemma delete_fold:
  "fold (\<lambda>(key, _) d. AList.delete key d) tr d = filter (\<lambda>kv. fst kv \<notin> fst ` set tr) d"
proof (induction tr arbitrary: d)
  case Nil
  then show ?case by simp
next
  case (Cons x tr)
  have "fold (\<lambda>(key, _) d. AList.delete key d) (x # tr) d =
        filter (\<lambda>kv. fst kv \<notin> fst ` set tr) (AList.delete (fst x) d)"
    by (simp add: Cons.IH split: prod.splits)
  also have "\<dots> = filter (\<lambda>kv. fst kv \<notin> fst ` set (x # tr)) d"
    by (auto simp: delete_as_filter intro: filter_cong)
  finally show ?case .
qed

lemma transfer_data:
  assumes "GetTransferRegistrations Hash BetterChoice here candidate s = (transfer, s')"
  shows "s' = s\<lparr>data := filter (\<lambda>kv. \<not> (fst kv \<in> keys_of s \<and>
                    BetterChoice (Hash (fst kv)) (Id candidate) (Id here))) (data s)\<rparr>"
proof -
  let ?P = "\<lambda>k. BetterChoice (Hash k) (Id candidate) (Id here)"
  have tr: "transfer = fold (\<lambda>(key, vals) tr. if ?P key then AList.update key (slice vals) tr else tr)
                         (data s) []"
    and s': "s' = s\<lparr>data := fold (\<lambda>(key, _) d. AList.delete key d) transfer (data s)\<rparr>"
    using assms by (auto simp: GetTransferRegistrations_def Let_def)
  have "fst ` set transfer = {k \<in> keys_of s. ?P k}"
    by (simp add: tr transfer_fold_keys keys_of_def)
  then show ?thesis
    by (simp add: s' delete_fold)
qed

section \<open>The concrete stores\<close>

lemma nodes_differ: "node_a \<noteq> node_b"
  by (simp add: node_a_def node_b_def)

lemma second_pos: "0 < second"
  by (simp add: second_def)

lemma store_ab_eq:
  "store_ab =
     \<lparr>data = [(''a'', [(node_b, 0)]), (''b'', [(node_a, 1)])],
      timers = [\<lparr>deadline = 5 * second, live = True, tkey = ''a'', treplica = node_b\<rparr>,
                \<lparr>deadline = 5 * second, live = True, tkey = ''b'', treplica = node_a\<rparr>],
      now = 0\<rparr>"
  by (simp add: store_ab_def Register_def NewObjectStore_def newTimeout_def data_at_def)

lemma store_k_eq:
  "store_k = \<lparr>data = [(''k'', [(node_a, 0)])],
              timers = [\<lparr>deadline = 5 * second, live = True, tkey = ''k'', treplica = node_a\<rparr>],
              now = 0\<rparr>"
  by (simp add: store_k_def Register_def NewObjectStore_def newTimeout_def data_at_def)

lemma store_k_refreshed:
  "Register ''k'' node_a (5 * second) (elapse second store_k) =
     (False,
      \<lparr>data = [(''k'', [(node_a, 0)])],
       timers = [\<lparr>deadline = second + TIMEOUT, live = True, tkey = ''k'', treplica = node_a\<rparr>],
       now = second\<rparr>)"
  by (simp add: store_k_eq elapse_def data_at_def Register_def timer_Reset_def)

lemma transfer_store_ab:
  "GetTransferRegistrations hash_digits longer_prefix node_a node_b store_ab =
     ([(''b'', [node_a])], store_ab\<lparr>data := [(''a'', [(node_b, 0)])]\<rparr>)"
  by (simp add: store_ab_eq GetTransferRegistrations_def hash_digits_def longer_prefix_def
      node_a_def node_b_def slice_def)


lemma Unregister_Register_store_k:
  "snd (Register ''k'' node_a (5 * second) (snd (Unregister ''k'' node_a store_k))) =
     \<lparr>data = [(''k'', [(node_a, 1)])],
      timers = [\<lparr>deadline = 5 * second, live = True, tkey = ''k'', treplica = node_a\<rparr>,
                \<lparr>deadline = 5 * second, live = True, tkey = ''k'', treplica = node_a\<rparr>],
      now = 0\<rparr>"
  by (simp add: store_k_eq Unregister_def delete_registration_def Register_def newTimeout_def
      data_at_def)

lemma UnregisterAll_Register_store_k:
  "snd (Register ''k'' node_a (5 * second) (snd (UnregisterAll ''k'' store_k))) =
     \<lparr>data = [(''k'', [(node_a, 1)])],
      timers = [\<lparr>deadline = 5 * second, live = True, tkey = ''k'', treplica = node_a\<rparr>,
                \<lparr>deadline = 5 * second, live = True, tkey = ''k'', treplica = node_a\<rparr>],
      now = 0\<rparr>"
  by (simp add: store_k_eq UnregisterAll_def Register_def newTimeout_def data_at_def)

lemma transfer_Register_store_ab:
  "snd (Register ''b'' node_a (5 * second)
         (snd (GetTransferRegistrations hash_digits longer_prefix node_a node_b store_ab))) =
     \<lparr>data = [(''a'', [(node_b, 0)]), (''b'', [(node_a, 2)])],
      timers = [\<lparr>deadline = 5 * second, live = True, tkey = ''a'', treplica = node_b\<rparr>,
                \<lparr>deadline = 5 * second, live = True, tkey = ''b'', treplica = node_a\<rparr>,
                \<lparr>deadline = 5 * second, live = True, tkey = ''b'', treplica = node_a\<rparr>],
      now = 0\<rparr>"
  unfolding transfer_store_ab
  by (simp add: store_ab_eq Register_def newTimeout_def data_at_def)

lemma store_abb_eq:
  "store_abb =
     \<lparr>data = [(''a'', [(node_b, 0)]), (''b'', [(node_a, 1), (node_b, 2)])],
      timers = [\<lparr>deadline = 5 * second, live = True, tkey = ''a'', treplica = node_b\<rparr>,
                \<lparr>deadline = 5 * second, live = True, tkey = ''b'', treplica = node_a\<rparr>,
                \<lparr>deadline = 5 * second, live = True, tkey = ''b'', treplica = node_b\<rparr>],
      now = 0\<rparr>"
  using nodes_differ
  by (simp add: store_abb_def store_ab_eq Register_def newTimeout_def data_at_def)

lemma transfer_store_abb:
  "GetTransferRegistrations hash_digits longer_prefix node_a node_b store_abb =
     ([(''b'', [node_a, node_b])], store_abb\<lparr>data := [(''a'', [(node_b, 0)])]\<rparr>)"
  by (simp add: store_abb_eq GetTransferRegistrations_def hash_digits_def longer_prefix_def
      node_a_def node_b_def slice_def)

section \<open>Keys stay unique\<close>

lemma unique_keys_data_at: "unique_keys s \<Longrightarrow> distinct (map fst (data_at s key))"
  by (auto simp: unique_keys_def data_at_def split: option.splits dest!: map_of_SomeD intro: rev_image_eqI)

lemma unique_keys_update:
  assumes "unique_keys s" and "distinct (map fst valmap)"
  shows "unique_keys (s\<lparr>data := AList.update key valmap (data s)\<rparr>)"
proof -
  have "\<forall>kv \<in> set (AList.update key valmap (data s)). distinct (map fst (snd kv))"
    using set_update_subset[of key valmap "data s"] assms by (auto simp: unique_keys_def)
  then show ?thesis
    using assms(1) by (auto simp: unique_keys_def distinct_update)
qed

lemma unique_keys_timers [simp]: "unique_keys (s\<lparr>timers := ts\<rparr>) = unique_keys s"
  by (simp add: unique_keys_def)

lemma unique_keys_filter:
  assumes "unique_keys s"
  shows "unique_keys (s\<lparr>data := filter P (data s)\<rparr>)"
  using assms by (auto simp: unique_keys_def distinct_map_filter)

lemma unique_keys_NewObjectStore: "unique_keys (NewObjectStore clock)"
  by (simp add: unique_keys_def NewObjectStore_def)

lemma unique_keys_Register: "unique_keys s \<Longrightarrow> unique_keys (snd (Register key replica timeout s))"
proof (cases "map_of (data_at s key) replica")
  case None
  assume w: "unique_keys s"
  have "unique_keys (s\<lparr>data := AList.update key
                         (AList.update replica (length (timers s)) (data_at s key)) (data s)\<rparr>)"
    using w unique_keys_data_at[OF w, of key] by (intro unique_keys_update) (simp_all add: distinct_update)
  then show ?thesis
    by (simp add: Register_fresh[OF None] unique_keys_def)
next
  case (Some p)
  assume "unique_keys s"
  then show ?thesis
    by (simp add: Register_refresh[OF Some] unique_keys_def)
qed

lemma unique_keys_RegisterAll_replica:
  assumes "unique_keys s"
  shows "unique_keys (RegisterAll_replica key timeout replica s)"
proof -
  have "unique_keys (s\<lparr>data := AList.update key
                         (AList.update replica (length (timers s)) (data_at s key)) (data s)\<rparr>)"
    using assms unique_keys_data_at[OF assms, of key]
    by (intro unique_keys_update) (simp_all add: distinct_update)
  then show ?thesis
    by (simp add: RegisterAll_replica_data unique_keys_def)
qed

lemma unique_keys_RegisterAll_key:
  assumes "unique_keys s"
  shows "unique_keys (RegisterAll_key timeout kr s)"
proof -
  have fold_ok: "unique_keys s' \<Longrightarrow> unique_keys (fold (RegisterAll_replica key timeout) replicas s')"
    for s' key replicas
    by (induction replicas arbitrary: s') (simp_all add: unique_keys_RegisterAll_replica)
  have "unique_keys (s\<lparr>data := AList.update (fst kr) [] (data s)\<rparr>)"
    using assms by (simp add: unique_keys_update)
  then show ?thesis
    using assms by (simp add: RegisterAll_key_def fold_ok)
qed

lemma unique_keys_RegisterAll:
  "unique_keys s \<Longrightarrow> unique_keys (RegisterAll replicamap timeout s)"
  unfolding RegisterAll_def
  by (induction replicamap arbitrary: s) (simp_all add: unique_keys_RegisterAll_key)

lemma unique_keys_delete_registration:
  assumes "unique_keys s"
  shows "unique_keys (delete_registration key replica s)"
proof (cases "map_of (data s) key")
  case None
  then show ?thesis using assms by (simp add: delete_registration_def)
next
  case (Some valmap)
  then have "distinct (map fst valmap)"
    using unique_keys_data_at[OF assms, of key] by (simp add: data_at_def)
  then have "distinct (map fst (AList.delete replica valmap))"
    by (rule distinct_delete)
  then show ?thesis
    using assms by (simp add: delete_registration_def Some unique_keys_update)
qed

lemma unique_keys_Unregister: "unique_keys s \<Longrightarrow> unique_keys (snd (Unregister key replica s))"
  by (simp add: Unregister_def unique_keys_delete_registration)

lemma unique_keys_UnregisterAll: "unique_keys s \<Longrightarrow> unique_keys (snd (UnregisterAll key s))"
  using unique_keys_filter[of s "\<lambda>kv. fst kv \<noteq> key"]
  by (simp add: UnregisterAll_def delete_as_filter)

lemma unique_keys_GetTransferRegistrations:
  assumes "unique_keys s"
  shows "unique_keys (snd (GetTransferRegistrations Hash BetterChoice here candidate s))"
proof -
  obtain transfer s' where g: "GetTransferRegistrations Hash BetterChoice here candidate s = (transfer, s')"
    by (cases "GetTransferRegistrations Hash BetterChoice here candidate s")
  show ?thesis
    using unique_keys_filter[OF assms] by (simp add: g transfer_data[OF g])
qed

lemma unique_keys_expire: "unique_keys s \<Longrightarrow> unique_keys (expire key replica s)"
proof -
  assume u: "unique_keys s"
  have "unique_keys (timer_Stop p s)" for p
    using u by (simp add: timer_Stop_def)
  then show ?thesis
    using u by (simp add: expire_def unique_keys_delete_registration split: option.splits)
qed

lemma unique_keys_fire: "unique_keys s \<Longrightarrow> fire p s = Some s' \<Longrightarrow> unique_keys s'"
  by (auto simp: fire_def timer_runs_out_def callback_def split: if_splits intro!: unique_keys_expire)

lemma unique_keys_elapse: "unique_keys s \<Longrightarrow> unique_keys (elapse d s)"
  by (simp add: unique_keys_def)

section \<open>Register\<close>

text \<open>
  C6. In a directory with unique keys, \<open>Register key replica\<close> returns true exactly when
  the pair was not registered, leaves the pair registered, and the list \<open>Get key\<close> returns
  afterwards has no duplicate and holds \<open>replica\<close> besides the nodes it held before. On a
  pair that is already registered the directory contents are unchanged; so a second
  \<open>Register\<close> of the same pair at any later instant, with any timeout, returns false and
  leaves \<open>Get key\<close> as it was.
\<close>

theorem Register_idempotent:
  assumes "unique_keys s"
  shows "fst (Register key replica timeout s) = (\<not> is_registered s key replica) \<and>
         is_registered (snd (Register key replica timeout s)) key replica \<and>
         distinct (Get key (snd (Register key replica timeout s))) \<and>
         set (Get key (snd (Register key replica timeout s))) = insert replica (set (Get key s)) \<and>
         (is_registered s key replica \<longrightarrow>
            data (snd (Register key replica timeout s)) = data s) \<and>
         fst (Register key replica timeout' (elapse d (snd (Register key replica timeout s)))) = False \<and>
         Get key (snd (Register key replica timeout' (elapse d (snd (Register key replica timeout s))))) =
           Get key (snd (Register key replica timeout s))"
proof -
  let ?s' = "snd (Register key replica timeout s)"
  have reg': "is_registered (elapse d ?s') key replica"
    by (simp add: is_registered_Register)
  have again: "fst (Register key replica timeout' (elapse d ?s')) = False"
    and same: "Get key (snd (Register key replica timeout' (elapse d ?s'))) = Get key ?s'"
    using Register_again[OF reg', of timeout'] by (simp_all add: Get_def data_at_def)
  have dist: "distinct (Get key ?s')"
    using unique_keys_data_at[OF unique_keys_Register[OF assms], of key replica timeout key]
    by (simp add: Get_def slice_eq)
  have first: "fst (Register key replica timeout s) = (\<not> is_registered s key replica)"
    using Register_again[of s key replica timeout] Register_first[of s key replica timeout]
    by blast
  have members: "set (Get key ?s') = insert replica (set (Get key s))"
  proof (cases "is_registered s key replica")
    case True
    then have "replica \<in> set (Get key s)"
      by (simp add: is_registered_Get)
    then show ?thesis
      using Register_again[OF True, of timeout] by (auto simp: Get_def data_at_def)
  next
    case False
    show ?thesis
      using Register_first[OF False, of timeout] dom_update[of replica _ "data_at s key"]
      by (simp add: Get_def slice_eq)
  qed
  show ?thesis
    using first is_registered_Register dist members Register_again again same by blast
qed

theorem Register_idempotent_witness:
  "unique_keys store_ab \<and>
   \<not> is_registered store_ab ''a'' node_a \<and>
   fst (Register ''a'' node_a (5 * second) store_ab) = True \<and>
   Get ''a'' (snd (Register ''a'' node_a (5 * second) store_ab)) = [node_b, node_a] \<and>
   fst (Register ''a'' node_a second (elapse second (snd (Register ''a'' node_a (5 * second) store_ab)))) = False \<and>
   is_registered store_ab ''a'' node_b \<and>
   fst (Register ''a'' node_b (5 * second) store_ab) = False \<and>
   data (snd (Register ''a'' node_b (5 * second) store_ab)) = data store_ab \<and>
   Get ''a'' (snd (Register ''a'' node_b (5 * second) store_ab)) = [node_b]"
proof -
  have w: "unique_keys store_ab"
    by (simp add: store_ab_eq unique_keys_def)
  have a: "\<not> is_registered store_ab ''a'' node_a"
    using nodes_differ by (simp add: store_ab_eq is_registered_def data_at_def)
  have b: "is_registered store_ab ''a'' node_b"
    by (simp add: store_ab_eq is_registered_def data_at_def)
  have g: "Get ''a'' store_ab = [node_b]"
    by (simp add: store_ab_eq Get_def data_at_def slice_eq)
  have g': "Get ''a'' (snd (Register ''a'' node_a (5 * second) store_ab)) = [node_b, node_a]"
    using nodes_differ
    by (simp add: store_ab_eq Register_def newTimeout_def Get_def data_at_def slice_eq)
  note fresh = Register_idempotent[OF w, of "''a''" node_a "5 * second" second second]
  note again = Register_idempotent[OF w, of "''a''" node_b "5 * second" second second]
  have 1: "fst (Register ''a'' node_a (5 * second) store_ab) = True"
    using fresh a by simp
  have 2: "fst (Register ''a'' node_a second (elapse second (snd (Register ''a'' node_a (5 * second) store_ab)))) = False"
    using fresh by blast
  have 3: "fst (Register ''a'' node_b (5 * second) store_ab) = False"
    using again b by simp
  have 4: "data (snd (Register ''a'' node_b (5 * second) store_ab)) = data store_ab"
    using again b by blast
  have 5: "Get ''a'' (snd (Register ''a'' node_b (5 * second) store_ab)) = [node_b]"
    using Get_cong_data[OF 4] g by simp
  show ?thesis
    using w a b 1 2 3 4 5 g' by blast
qed

text \<open>
  C1, at a concrete input. \<open>node_a\<close> is registered for key \<open>k\<close>; one second later it
  registers again with a timeout of five seconds. The call is a refresh (it returns false
  and allocates no timer), but the timer is re-armed to the constant \<open>TIMEOUT\<close> from now,
  which is not five seconds from now, and five seconds after the refresh the timer cannot
  fire.
\<close>

theorem Register_refresh_ignores_timeout:
  "timer_of (elapse second store_k) ''k'' node_a = Some 0 \<and>
   fst (Register ''k'' node_a (5 * second) (elapse second store_k)) = False \<and>
   timers (snd (Register ''k'' node_a (5 * second) (elapse second store_k))) =
     [\<lparr>deadline = second + TIMEOUT, live = True, tkey = ''k'', treplica = node_a\<rparr>] \<and>
   second + TIMEOUT \<noteq> now (elapse second store_k) + 5 * second \<and>
   fire 0 (elapse (5 * second) (snd (Register ''k'' node_a (5 * second) (elapse second store_k)))) = None"
proof -
  have 1: "timer_of (elapse second store_k) ''k'' node_a = Some 0"
    by (simp add: store_k_eq timer_of_def data_at_def)
  have 2: "second + TIMEOUT \<noteq> now (elapse second store_k) + 5 * second"
    using second_pos by (simp add: store_k_eq elapse_def TIMEOUT_def)
  have 3: "fire 0 (elapse (5 * second) (snd (Register ''k'' node_a (5 * second) (elapse second store_k)))) = None"
    unfolding store_k_refreshed using second_pos by (simp add: fire_def timer_runs_out_def callback_def elapse_def TIMEOUT_def)
  show ?thesis
    using 1 2 3 by (simp add: store_k_refreshed)
qed

section \<open>UnregisterAll\<close>

text \<open>
  C7. \<open>UnregisterAll key\<close> returns exactly the set of nodes registered for \<open>key\<close> at the
  call, removes the key with all its advertisers from the directory, leaves every other
  key as it was, and a \<open>Get key\<close> right afterwards returns the empty list.
\<close>

theorem UnregisterAll_removes_all:
  "(replica \<in> set (fst (UnregisterAll key s))) = is_registered s key replica \<and>
   fst (UnregisterAll key s) = Get key s \<and>
   \<not> is_registered (snd (UnregisterAll key s)) key replica \<and>
   key \<notin> keys_of (snd (UnregisterAll key s)) \<and>
   Get key (snd (UnregisterAll key s)) = []"
  by (simp add: UnregisterAll_def is_registered_Get Get_def data_at_delete_same slice_eq
      keys_of_def delete_notin_dom)

section \<open>Ownership transfer\<close>

text \<open>
  C3. \<open>GetTransferRegistrations here candidate\<close> partitions the directory. A key of the
  directory whose hash the predicate judges a better match for the candidate than for the
  local node is gone from the directory afterwards, with no node registered for it, and
  is in the returned batch with a list free of duplicates whose members are exactly the
  nodes that were registered for the key. Every other key is not in the batch, keeps its
  entry, has the same nodes registered, and \<open>Get\<close> returns the same nodes for it.
\<close>

theorem GetTransferRegistrations_partitions:
  assumes "unique_keys s"
    and "GetTransferRegistrations Hash BetterChoice here candidate s = (transfer, s')"
  shows "(key \<in> keys_of s \<and> BetterChoice (Hash key) (Id candidate) (Id here) \<longrightarrow>
            key \<notin> keys_of s' \<and> \<not> is_registered s' key replica \<and> Get key s' = [] \<and>
            (\<exists>replicas. map_of transfer key = Some replicas \<and> distinct replicas \<and>
                        set replicas = {r. is_registered s key r})) \<and>
         (\<not> (key \<in> keys_of s \<and> BetterChoice (Hash key) (Id candidate) (Id here)) \<longrightarrow>
            map_of transfer key = None \<and> map_of (data s') key = map_of (data s) key \<and>
            is_registered s' key replica = is_registered s key replica \<and>
            set (Get key s') = set (Get key s) \<and> (key \<in> keys_of s' \<longleftrightarrow> key \<in> keys_of s))"
proof -
  let ?P = "\<lambda>k. BetterChoice (Hash k) (Id candidate) (Id here)"
  have d: "distinct (map fst (data s))"
    using assms(1) by (simp add: unique_keys_def)
  have tr: "transfer = fold (\<lambda>(key, vals) tr. if ?P key then AList.update key (slice vals) tr else tr)
                         (data s) []"
    using assms(2) by (auto simp: GetTransferRegistrations_def Let_def)
  have look_tr: "map_of transfer key =
      (if ?P key \<and> key \<in> keys_of s then map_option slice (map_of (data s) key) else None)"
    by (simp add: tr transfer_fold[OF d] keys_of_def)
  have data': "data s' = filter (\<lambda>kv. fst kv \<notin> {k \<in> keys_of s. ?P k}) (data s)"
    using transfer_data[OF assms(2)] by simp
  have look': "map_of (data s') key = (if key \<in> keys_of s \<and> ?P key then None else map_of (data s) key)"
    unfolding data' map_of_filter_keys by simp
  have keys': "keys_of s' = keys_of s - {k \<in> keys_of s. ?P k}"
    by (auto simp: keys_of_def data')
  show ?thesis
  proof (cases "key \<in> keys_of s \<and> ?P key")
    case True
    then have "map_of (data s) key \<noteq> None"
      by (simp add: keys_of_def map_of_eq_None_iff)
    then obtain vals where v: "map_of (data s) key = Some vals"
      by blast
    have at: "data_at s key = vals"
      using v by (simp add: data_at_def)
    have "distinct (slice vals)"
      using unique_keys_data_at[OF assms(1), of key] by (simp add: at slice_eq)
    moreover have "set (slice vals) = {r. is_registered s key r}"
      by (auto simp: is_registered_Get Get_def at)
    moreover have "map_of transfer key = Some (slice vals)"
      using True by (simp add: look_tr v)
    moreover have "data_at s' key = []"
      using True by (simp add: data_at_def look')
    ultimately show ?thesis
      using True by (simp add: keys' Get_def is_registered_def slice_eq)
  next
    case False
    then have "data_at s' key = data_at s key"
      by (auto simp: data_at_def look')
    then show ?thesis
      using False by (auto simp: keys' look_tr look' Get_def is_registered_def)
  qed
qed

theorem GetTransferRegistrations_partitions_witness:
  "unique_keys store_abb \<and>
   GetTransferRegistrations hash_digits longer_prefix node_a node_b store_abb =
     ([(''b'', [node_a, node_b])], store_abb\<lparr>data := [(''a'', [(node_b, 0)])]\<rparr>) \<and>
   ''b'' \<in> keys_of store_abb \<and> longer_prefix (hash_digits ''b'') (Id node_b) (Id node_a) \<and>
   ''b'' \<notin> keys_of (store_abb\<lparr>data := [(''a'', [(node_b, 0)])]\<rparr>) \<and>
   set [node_a, node_b] = {r. is_registered store_abb ''b'' r} \<and>
   is_registered store_abb ''b'' node_a \<and> is_registered store_abb ''b'' node_b \<and>
   ''a'' \<in> keys_of store_abb \<and> \<not> longer_prefix (hash_digits ''a'') (Id node_b) (Id node_a) \<and>
   map_of [(''b'', [node_a, node_b])] ''a'' = None \<and>
   set (Get ''a'' (store_abb\<lparr>data := [(''a'', [(node_b, 0)])]\<rparr>)) = set (Get ''a'' store_abb) \<and>
   ''a'' \<in> keys_of (store_abb\<lparr>data := [(''a'', [(node_b, 0)])]\<rparr>)"
proof -
  have w: "unique_keys store_abb"
    using nodes_differ by (simp add: store_abb_eq unique_keys_def)
  have b: "''b'' \<in> keys_of store_abb \<and> longer_prefix (hash_digits ''b'') (Id node_b) (Id node_a)"
    by (simp add: store_abb_eq keys_of_def hash_digits_def longer_prefix_def node_a_def node_b_def)
  have a: "''a'' \<in> keys_of store_abb \<and> \<not> longer_prefix (hash_digits ''a'') (Id node_b) (Id node_a)"
    by (simp add: store_abb_eq keys_of_def hash_digits_def longer_prefix_def node_a_def node_b_def)
  have r: "is_registered store_abb ''b'' node_a \<and> is_registered store_abb ''b'' node_b"
    using nodes_differ by (simp add: store_abb_eq is_registered_def data_at_def)
  note moved = GetTransferRegistrations_partitions[OF w transfer_store_abb, of "''b''"]
  note kept = GetTransferRegistrations_partitions[OF w transfer_store_abb, of "''a''"]
  have 1: "''b'' \<notin> keys_of (store_abb\<lparr>data := [(''a'', [(node_b, 0)])]\<rparr>)"
    using moved b by blast
  have 2: "set [node_a, node_b] = {r. is_registered store_abb ''b'' r}"
    using moved b by auto
  have 3: "map_of [(''b'', [node_a, node_b])] ''a'' = None \<and>
           set (Get ''a'' (store_abb\<lparr>data := [(''a'', [(node_b, 0)])]\<rparr>)) = set (Get ''a'' store_abb) \<and>
           ''a'' \<in> keys_of (store_abb\<lparr>data := [(''a'', [(node_b, 0)])]\<rparr>)"
    using kept a by blast
  show ?thesis
    using w transfer_store_abb a b r 1 2 3 by blast
qed

section \<open>Keys with an empty registration set\<close>


lemma nonempty_sets_timers [simp]: "nonempty_sets (s\<lparr>timers := ts\<rparr>) = nonempty_sets s"
  by (simp add: nonempty_sets_def)








section \<open>What each operation adds and removes\<close>

lemma is_registered_timers [simp]:
  "is_registered (s\<lparr>timers := ts\<rparr>) key replica = is_registered s key replica"
  by (simp add: is_registered_def)









lemma is_registered_timer_Stop [simp]:
  "is_registered (timer_Stop p s) key replica = is_registered s key replica"
  by (simp add: is_registered_def)








section \<open>When a key is left with an empty set\<close>










section \<open>Live timers\<close>

lemma RegisterAll_again_store_k:
  "RegisterAll [(''k'', [node_a])] (30 * second) store_k =
     \<lparr>data = [(''k'', [(node_a, 1)])],
      timers = [\<lparr>deadline = 5 * second, live = True, tkey = ''k'', treplica = node_a\<rparr>,
                \<lparr>deadline = 30 * second, live = True, tkey = ''k'', treplica = node_a\<rparr>],
      now = 0\<rparr>"
  by (simp add: store_k_eq RegisterAll_def RegisterAll_key_def RegisterAll_replica_data data_at_def)

lemma Register_again_store_k:
  "snd (Register ''k'' node_a (30 * second) store_k) =
     \<lparr>data = [(''k'', [(node_a, 0)])],
      timers = [\<lparr>deadline = TIMEOUT, live = True, tkey = ''k'', treplica = node_a\<rparr>],
      now = 0\<rparr>"
  by (simp add: store_k_eq Register_def timer_Reset_def data_at_def)

lemma stale_timer_fires:
  "fire 0 (elapse (5 * second) (RegisterAll [(''k'', [node_a])] (30 * second) store_k)) =
     Some \<lparr>data = [(''k'', [])],
           timers = [\<lparr>deadline = 5 * second, live = False, tkey = ''k'', treplica = node_a\<rparr>,
                     \<lparr>deadline = 30 * second, live = False, tkey = ''k'', treplica = node_a\<rparr>],
           now = 5 * second\<rparr>"
  unfolding RegisterAll_again_store_k
  by (simp add: elapse_def fire_def timer_runs_out_def callback_def expire_def timer_Stop_def
      delete_registration_def data_at_def)

text \<open>
  C5, at concrete inputs. \<open>node_a\<close> is registered for key \<open>k\<close>, with one live timer.
  \<open>Register\<close> of the pair again keeps it at one. \<open>RegisterAll\<close> of the pair for thirty
  seconds stores a new timer in the directory and leaves the first one scheduled: two
  live timers for the pair. The first then fires after five seconds, finds the pair
  present, stops the newer timer and deletes the registration. A pair registered again
  after \<open>Unregister\<close>, \<open>UnregisterAll\<close> or \<open>GetTransferRegistrations\<close> removed it has two
  live timers as well, since none of them stops a timer.
\<close>

theorem RegisterAll_leaves_previous_timer_live:
  "live_timers store_k ''k'' node_a = [0] \<and>
   live_timers (snd (Register ''k'' node_a (30 * second) store_k)) ''k'' node_a = [0] \<and>
   timer_of (RegisterAll [(''k'', [node_a])] (30 * second) store_k) ''k'' node_a = Some 1 \<and>
   live_timers (RegisterAll [(''k'', [node_a])] (30 * second) store_k) ''k'' node_a = [0, 1] \<and>
   fire 0 (elapse (5 * second) (RegisterAll [(''k'', [node_a])] (30 * second) store_k)) =
     Some \<lparr>data = [(''k'', [])],
           timers = [\<lparr>deadline = 5 * second, live = False, tkey = ''k'', treplica = node_a\<rparr>,
                     \<lparr>deadline = 30 * second, live = False, tkey = ''k'', treplica = node_a\<rparr>],
           now = 5 * second\<rparr> \<and>
   live_timers (snd (Register ''k'' node_a (5 * second) (snd (Unregister ''k'' node_a store_k))))
     ''k'' node_a = [0, 1] \<and>
   live_timers (snd (Register ''k'' node_a (5 * second) (snd (UnregisterAll ''k'' store_k))))
     ''k'' node_a = [0, 1] \<and>
   live_timers (snd (Register ''b'' node_a (5 * second)
                  (snd (GetTransferRegistrations hash_digits longer_prefix node_a node_b store_ab))))
     ''b'' node_a = [1, 2]"
proof -
  have 1: "live_timers store_k ''k'' node_a = [0]"
    by (simp add: store_k_eq live_timers_def)
  have 2: "live_timers (snd (Register ''k'' node_a (30 * second) store_k)) ''k'' node_a = [0]"
    by (simp add: Register_again_store_k live_timers_def)
  have 3: "timer_of (RegisterAll [(''k'', [node_a])] (30 * second) store_k) ''k'' node_a = Some 1"
    by (simp add: RegisterAll_again_store_k timer_of_def data_at_def)
  have 4: "live_timers (RegisterAll [(''k'', [node_a])] (30 * second) store_k) ''k'' node_a = [0, 1]"
    by (simp add: RegisterAll_again_store_k live_timers_def upt_2)
  have 5: "live_timers (snd (Register ''k'' node_a (5 * second) (snd (Unregister ''k'' node_a store_k))))
     ''k'' node_a = [0, 1]"
    by (simp add: Unregister_Register_store_k live_timers_def upt_2)
  have 6: "live_timers (snd (Register ''k'' node_a (5 * second) (snd (UnregisterAll ''k'' store_k))))
     ''k'' node_a = [0, 1]"
    by (simp add: UnregisterAll_Register_store_k live_timers_def upt_2)
  have 7: "live_timers (snd (Register ''b'' node_a (5 * second)
                  (snd (GetTransferRegistrations hash_digits longer_prefix node_a node_b store_ab))))
     ''b'' node_a = [1, 2]"
    using nodes_differ by (simp add: transfer_Register_store_ab live_timers_def upt_3 numeral_2_eq_2)
  show ?thesis
    using 1 2 3 4 5 6 7 stale_timer_fires by blast
qed

text \<open>
  The two steps of a firing timer with a \<open>Register\<close> in between: the timer of \<open>store_k\<close>
  runs out, the pair is refreshed before the callback has taken the mutex, and the
  callback then stops the re-armed timer and deletes the refreshed pair.
\<close>

lemma refresh_before_pending_callback:
  "timer_runs_out 0 (elapse (5 * second) store_k) =
     Some \<lparr>data = [(''k'', [(node_a, 0)])],
           timers = [\<lparr>deadline = 5 * second, live = False, tkey = ''k'', treplica = node_a\<rparr>],
           now = 5 * second\<rparr> \<and>
   Register ''k'' node_a (5 * second)
     \<lparr>data = [(''k'', [(node_a, 0)])],
      timers = [\<lparr>deadline = 5 * second, live = False, tkey = ''k'', treplica = node_a\<rparr>],
      now = 5 * second\<rparr> =
     (False,
      \<lparr>data = [(''k'', [(node_a, 0)])],
       timers = [\<lparr>deadline = 5 * second + TIMEOUT, live = True, tkey = ''k'', treplica = node_a\<rparr>],
       now = 5 * second\<rparr>) \<and>
   callback 0
     \<lparr>data = [(''k'', [(node_a, 0)])],
      timers = [\<lparr>deadline = 5 * second + TIMEOUT, live = True, tkey = ''k'', treplica = node_a\<rparr>],
      now = 5 * second\<rparr> =
     \<lparr>data = [(''k'', [])],
      timers = [\<lparr>deadline = 5 * second + TIMEOUT, live = False, tkey = ''k'', treplica = node_a\<rparr>],
      now = 5 * second\<rparr>"
  by (simp add: store_k_eq elapse_def timer_runs_out_def Register_def timer_Reset_def data_at_def
      callback_def expire_def timer_Stop_def delete_registration_def)

section \<open>The client data path: fetching with fallback\<close>

lemma errors_of_Cons:
  "errors_of ((blob, err) # answers) = (case err of Some e \<Rightarrow> [e] | None \<Rightarrow> []) @ errors_of answers"
  by (simp add: errors_of_def List.map_filter_simps split: option.splits)

lemma errors_of_Nil: "errors_of [] = []"
  by (simp add: errors_of_def List.map_filter_simps)

lemma contact_replicas_skip:
  "fetch_each Fetch key pre net = (answers, net2) \<Longrightarrow> \<forall>a \<in> set answers. fst a = None \<Longrightarrow>
   contact_replicas Fetch key (pre @ rest) errs net =
     contact_replicas Fetch key rest (errs @ errors_of answers) net2"
proof (induction pre arbitrary: errs net answers)
  case Nil
  then show ?case by (auto simp: errors_of_Nil)
next
  case (Cons r pre)
  obtain blob err net' where f: "Fetch r key net = ((blob, err), net')"
    by (metis prod.exhaust)
  obtain answers' net'' where fe: "fetch_each Fetch key pre net' = (answers', net'')"
    by (metis prod.exhaust)
  from Cons.prems(1) f fe have a: "answers = (blob, err) # answers'" and n: "net2 = net''"
    by auto
  from Cons.prems(2) a have b: "blob = None" and rest: "\<forall>a \<in> set answers'. fst a = None"
    by auto
  show ?case
    using Cons.IH[OF fe[unfolded n[symmetric]] rest]
    by (simp add: f b a errors_of_Cons split: option.splits)
qed

lemma contact_replicas_hit:
  "Fetch replica key net = ((Some b, err), net') \<Longrightarrow>
   contact_replicas Fetch key (replica # rest) errs net =
     ((Some b, errs @ (case err of Some e \<Rightarrow> [e] | None \<Rightarrow> [])), net')"
  by (simp split: option.splits)

text \<open>
  C2, as amended. \<open>Tapestry.Get\<close> returns the error of \<open>Lookup\<close> when it fails, and an
  error of its own when \<open>Lookup\<close> returns no node. Otherwise it fetches from the replicas in
  the order supplied: when some replica is the first whose fetch yields a blob, the bytes
  of that blob are returned and the outside state is the one right after that fetch, so no
  later replica is contacted; when no replica yields a blob, whether or not it reports an
  error, the call fails with one error that holds the replica list and every fetch
  error, in order.
\<close>

theorem Tapestry_Get_cases:
  "(Lookup key (local t) = ((replicas, Some err), net1) \<longrightarrow>
      Tapestry_Get Lookup Fetch key t = (Inl (Lookup_error err), t\<lparr>local := net1\<rparr>)) \<and>
   (Lookup key (local t) = (([], None), net1) \<longrightarrow>
      Tapestry_Get Lookup Fetch key t = (Inl (No_replicas key), t\<lparr>local := net1\<rparr>)) \<and>
   (Lookup key (local t) = ((pre @ replica # post, None), net1) \<and>
    fetch_each Fetch key pre net1 = (answers, net2) \<and> (\<forall>a \<in> set answers. fst a = None) \<and>
    Fetch replica key net2 = ((Some b, e), net3) \<longrightarrow>
      Tapestry_Get Lookup Fetch key t = (Inr b, t\<lparr>local := net3\<rparr>)) \<and>
   (Lookup key (local t) = ((replicas, None), net1) \<and> replicas \<noteq> [] \<and>
    fetch_each Fetch key replicas net1 = (answers, net2) \<and> (\<forall>a \<in> set answers. fst a = None) \<longrightarrow>
      Tapestry_Get Lookup Fetch key t =
        (Inl (Error_contacting replicas (errors_of answers)), t\<lparr>local := net2\<rparr>))"
proof (intro conjI impI)
  assume "Lookup key (local t) = ((replicas, Some err), net1)"
  then show "Tapestry_Get Lookup Fetch key t = (Inl (Lookup_error err), t\<lparr>local := net1\<rparr>)"
    by (simp add: Tapestry_Get_def Tapestry_Lookup_def)
next
  assume "Lookup key (local t) = (([], None), net1)"
  then show "Tapestry_Get Lookup Fetch key t = (Inl (No_replicas key), t\<lparr>local := net1\<rparr>)"
    by (simp add: Tapestry_Get_def Tapestry_Lookup_def)
next
  assume a: "Lookup key (local t) = ((pre @ replica # post, None), net1) \<and>
    fetch_each Fetch key pre net1 = (answers, net2) \<and> (\<forall>a \<in> set answers. fst a = None) \<and>
    Fetch replica key net2 = ((Some b, e), net3)"
  then have "contact_replicas Fetch key (pre @ replica # post) [] net1 =
      ((Some b, errors_of answers @ (case e of Some x \<Rightarrow> [x] | None \<Rightarrow> [])), net3)"
    using contact_replicas_skip[of Fetch key pre net1 answers net2 "replica # post" "[]"]
      contact_replicas_hit[of Fetch replica key net2 b e net3 post "errors_of answers"]
    by simp
  with a show "Tapestry_Get Lookup Fetch key t = (Inr b, t\<lparr>local := net3\<rparr>)"
    by (simp add: Tapestry_Get_def Tapestry_Lookup_def)
next
  assume a: "Lookup key (local t) = ((replicas, None), net1) \<and> replicas \<noteq> [] \<and>
    fetch_each Fetch key replicas net1 = (answers, net2) \<and> (\<forall>a \<in> set answers. fst a = None)"
  then have "contact_replicas Fetch key replicas [] net1 = ((None, errors_of answers), net2)"
    using contact_replicas_skip[of Fetch key replicas net1 answers net2 "[]" "[]"]
    by simp
  with a show "Tapestry_Get Lookup Fetch key t =
        (Inl (Error_contacting replicas (errors_of answers)), t\<lparr>local := net2\<rparr>)"
    by (simp add: Tapestry_Get_def Tapestry_Lookup_def)
qed

theorem Tapestry_Get_cases_witness:
  "Tapestry_Get lookup_fails fetch_b_has_it ''k'' tapestry0 =
     (Inl (Lookup_error ''no route''), tapestry0\<lparr>local := 1\<rparr>) \<and>
   Tapestry_Get lookup_none fetch_b_has_it ''k'' tapestry0 =
     (Inl (No_replicas ''k''), tapestry0\<lparr>local := 1\<rparr>) \<and>
   Tapestry_Get lookup_ab fetch_b_has_it ''k'' tapestry0 = (Inr ''blob'', tapestry0\<lparr>local := 3\<rparr>) \<and>
   Tapestry_Get lookup_ab fetch_nobody_has_it ''k'' tapestry0 =
     (Inl (Error_contacting [node_a, node_b] [''refused'']), tapestry0\<lparr>local := 3\<rparr>)"
proof -
  have n: "node_b \<noteq> node_a"
    by (simp add: node_a_def node_b_def)
  have 1: "Tapestry_Get lookup_fails fetch_b_has_it ''k'' tapestry0 =
     (Inl (Lookup_error ''no route''), tapestry0\<lparr>local := 1\<rparr>)"
    using Tapestry_Get_cases[where Lookup = lookup_fails and key = "''k''" and t = tapestry0
        and replicas = "[]" and err = "''no route''" and ?net1.0 = 1]
    by (simp add: lookup_fails_def tapestry0_def)
  have 2: "Tapestry_Get lookup_none fetch_b_has_it ''k'' tapestry0 =
     (Inl (No_replicas ''k''), tapestry0\<lparr>local := 1\<rparr>)"
    using Tapestry_Get_cases[where Lookup = lookup_none and key = "''k''" and t = tapestry0
        and ?net1.0 = 1]
    by (simp add: lookup_none_def tapestry0_def)
  have 3: "Tapestry_Get lookup_ab fetch_b_has_it ''k'' tapestry0 =
     (Inr ''blob'', tapestry0\<lparr>local := 3\<rparr>)"
    using Tapestry_Get_cases[where Lookup = lookup_ab and key = "''k''" and t = tapestry0
        and ?net1.0 = 1 and pre = "[node_a]" and replica = node_b and post = "[]"
        and Fetch = fetch_b_has_it and answers = "[(None, Some ''refused'')]" and ?net2.0 = 2
        and b = "''blob''" and e = None and ?net3.0 = 3] n
    by (simp add: lookup_ab_def tapestry0_def fetch_b_has_it_def)
  have 4: "Tapestry_Get lookup_ab fetch_nobody_has_it ''k'' tapestry0 =
     (Inl (Error_contacting [node_a, node_b] [''refused'']), tapestry0\<lparr>local := 3\<rparr>)"
    using Tapestry_Get_cases[where Lookup = lookup_ab and key = "''k''" and t = tapestry0
        and replicas = "[node_a, node_b]" and ?net1.0 = 1 and Fetch = fetch_nobody_has_it
        and answers = "[(None, Some ''refused''), (None, None)]" and ?net2.0 = 3] n
    by (simp add: lookup_ab_def tapestry0_def fetch_nobody_has_it_def errors_of_def
        List.map_filter_simps)
  from 1 2 3 4 show ?thesis by blast
qed

text \<open>
  C2 as stated fails: with one candidate whose fetch returns an error together with a
  blob, every candidate errors and yet the call succeeds.
\<close>

theorem Tapestry_Get_every_candidate_errors_yet_succeeds:
  "fetch_each fetch_blob_and_error ''k'' [node_a] 1 = ([(Some ''blob'', Some ''short read'')], 2) \<and>
   Tapestry_Get lookup_a fetch_blob_and_error ''k'' tapestry0 = (Inr ''blob'', tapestry0\<lparr>local := 2\<rparr>)"
  by (simp add: Tapestry_Get_def Tapestry_Lookup_def lookup_a_def fetch_blob_and_error_def
      tapestry0_def)

text \<open>
  C10. When the fetch from the first replica that yields a blob also returns an error,
  the loop records that error after those of the earlier replicas, and \<open>Tapestry.Get\<close>
  still returns the bytes of the blob with no error. In the concrete case that follows,
  every contacted replica reported an error and the caller receives a success.
\<close>

theorem Tapestry_Get_error_masked_by_blob:
  assumes "Lookup key (local t) = ((pre @ replica # post, None), net1)"
    and "fetch_each Fetch key pre net1 = (answers, net2)"
    and "\<forall>a \<in> set answers. fst a = None"
    and "Fetch replica key net2 = ((Some b, Some e), net3)"
  shows "contact_replicas Fetch key (pre @ replica # post) [] net1 =
           ((Some b, errors_of answers @ [e]), net3) \<and>
         Tapestry_Get Lookup Fetch key t = (Inr b, t\<lparr>local := net3\<rparr>)"
proof -
  have "contact_replicas Fetch key (pre @ replica # post) [] net1 =
          contact_replicas Fetch key (replica # post) ([] @ errors_of answers) net2"
    using assms(2,3) by (rule contact_replicas_skip)
  also have "\<dots> = ((Some b, errors_of answers @ [e]), net3)"
    using contact_replicas_hit[of Fetch replica key net2 b "Some e" net3 post "errors_of answers"]
      assms(4) by simp
  finally have c: "contact_replicas Fetch key (pre @ replica # post) [] net1 =
           ((Some b, errors_of answers @ [e]), net3)" .
  then show ?thesis
    using assms(1) by (simp add: Tapestry_Get_def Tapestry_Lookup_def)
qed

theorem Tapestry_Get_error_masked_by_blob_witness:
  "lookup_ab ''k'' (local tapestry0) = (([node_a] @ node_b # [], None), 1) \<and>
   fetch_each fetch_error_everywhere ''k'' [node_a, node_b] 1 =
     ([(None, Some ''refused''), (Some ''blob'', Some ''short read'')], 3) \<and>
   contact_replicas fetch_error_everywhere ''k'' [node_a, node_b] [] 1 =
     ((Some ''blob'', [''refused'', ''short read'']), 3) \<and>
   Tapestry_Get lookup_ab fetch_error_everywhere ''k'' tapestry0 = (Inr ''blob'', tapestry0\<lparr>local := 3\<rparr>)"
proof -
  have n: "node_b \<noteq> node_a"
    by (simp add: node_a_def node_b_def)
  have 1: "lookup_ab ''k'' (local tapestry0) = (([node_a] @ node_b # [], None), 1)"
    by (simp add: lookup_ab_def tapestry0_def)
  have 2: "fetch_each fetch_error_everywhere ''k'' [node_a] 1 = ([(None, Some ''refused'')], 2)"
    by (simp add: fetch_error_everywhere_def)
  have 3: "\<forall>a \<in> set [(None :: bytes option, Some ''refused'')]. fst a = None"
    by simp
  have 4: "fetch_error_everywhere node_b ''k'' 2 = ((Some ''blob'', Some ''short read''), 3)"
    using n by (simp add: fetch_error_everywhere_def)
  have 5: "fetch_each fetch_error_everywhere ''k'' [node_a, node_b] 1 =
     ([(None, Some ''refused''), (Some ''blob'', Some ''short read'')], 3)"
    using n by (simp add: fetch_error_everywhere_def)
  show ?thesis
    using Tapestry_Get_error_masked_by_blob[of lookup_ab "''k''" tapestry0 "[node_a]" node_b "[]" 1
        fetch_error_everywhere "[(None, Some ''refused'')]" 2 "''blob''" "''short read''" 3,
        OF 1 2 3 4] 1 5
    by (simp add: errors_of_def List.map_filter_simps)
qed

section \<open>The client data path: storing and removing\<close>

text \<open>
  C8. If \<open>Publish\<close> returns an error, \<open>Tapestry.Store\<close> returns that error and the local
  blob store is unchanged. If \<open>Publish\<close> succeeds, \<open>Store\<close> returns no error and the blob
  store is the result of \<open>Put\<close> with the key, the value and the readiness signal: it
  holds the value under the key together with the signal, and no other key changes.
\<close>

theorem Tapestry_Store_publish_error:
  "(Publish key (local t) = ((done, Some err), net) \<longrightarrow>
      Tapestry_Store Publish key val t = (Some err, t\<lparr>local := net\<rparr>) \<and>
      blobstore (snd (Tapestry_Store Publish key val t)) = blobstore t) \<and>
   (Publish key (local t) = ((done, None), net) \<longrightarrow>
      fst (Tapestry_Store Publish key val t) = None \<and>
      blobstore (snd (Tapestry_Store Publish key val t)) = Put key val done (blobstore t) \<and>
      blobstore (snd (Tapestry_Store Publish key val t)) key = Some (val, done) \<and>
      (key' \<noteq> key \<longrightarrow> blobstore (snd (Tapestry_Store Publish key val t)) key' = blobstore t key'))"
  by (simp add: Tapestry_Store_def Put_def)

theorem Tapestry_Store_publish_error_witness:
  "Tapestry_Store publish_fails ''k'' ''blob'' tapestry0 = (Some ''no root'', tapestry0\<lparr>local := 1\<rparr>) \<and>
   blobstore (snd (Tapestry_Store publish_fails ''k'' ''blob'' tapestry0)) = blobstore tapestry0 \<and>
   fst (Tapestry_Store publish_ok ''k'' ''blob'' tapestry0) = None \<and>
   blobstore (snd (Tapestry_Store publish_ok ''k'' ''blob'' tapestry0)) ''k'' = Some (''blob'', 7) \<and>
   blobstore (snd (Tapestry_Store publish_ok ''k'' ''blob'' tapestry0)) ''j'' = blobstore tapestry0 ''j''"
  using Tapestry_Store_publish_error[of publish_fails "''k''" tapestry0 0 "''no root''" 1 "''blob''" "''j''"]
    Tapestry_Store_publish_error[of publish_ok "''k''" tapestry0 7 _ 1 "''blob''" "''j''"]
  by (simp add: publish_fails_def publish_ok_def tapestry0_def Put_def)

text \<open>
  C9. \<open>Tapestry.Remove\<close> is \<open>Delete\<close> on the local blob store: it deletes the key there
  and returns whether it was there. The local node and everything reached through it,
  the directories among them, is as before.
\<close>

theorem Tapestry_Remove_local_only:
  "Tapestry_Remove key t =
     (fst (Delete key (blobstore t)), t\<lparr>blobstore := snd (Delete key (blobstore t))\<rparr>) \<and>
   Tapestry_Remove key t = (blobstore t key \<noteq> None, t\<lparr>blobstore := (blobstore t)(key := None)\<rparr>) \<and>
   local (snd (Tapestry_Remove key t)) = local t \<and>
   blobstore (snd (Tapestry_Remove key t)) key = None"
  by (simp add: Tapestry_Remove_def Delete_def)

end
